theory Spec2Isabelle
  imports Main
begin

section \<open>Python text primitives used by \<^verbatim>\<open>src/main.py\<close>\<close>

text \<open>
  A Python \<^verbatim>\<open>str\<close> is a sequence of code points. The model covers the code points
  below 256: a \<^typ>\<open>char\<close> is its code point, a \<^typ>\<open>string\<close> is the text. On this
  range \<^verbatim>\<open>str.lower\<close> works character by character, and \<^verbatim>\<open>str.strip\<close>,
  \<^verbatim>\<open>str.isspace\<close> and the regular-expression classes \<^verbatim>\<open>\s\<close> and \<^verbatim>\<open>\w\<close> are
  the tables below.
\<close>

definition isspace :: "char \<Rightarrow> bool" where
  "isspace c =
     (let n = (of_char c :: nat)
      in (9 \<le> n \<and> n \<le> 13) \<or> (28 \<le> n \<and> n \<le> 32) \<or> n = 133 \<or> n = 160)"

definition lower_char :: "char \<Rightarrow> char" where
  "lower_char c =
     (let n = (of_char c :: nat)
      in if (65 \<le> n \<and> n \<le> 90) \<or> (192 \<le> n \<and> n \<le> 214) \<or> (216 \<le> n \<and> n \<le> 222)
         then char_of (n + 32) else c)"

definition is_word :: "char \<Rightarrow> bool" where
  \<comment> \<open>the class \<^verbatim>\<open>\w\<close> of a \<^verbatim>\<open>str\<close> pattern: alphanumeric or underscore\<close>
  "is_word c =
     (let n = (of_char c :: nat)
      in (48 \<le> n \<and> n \<le> 57) \<or> (65 \<le> n \<and> n \<le> 90) \<or> n = 95 \<or> (97 \<le> n \<and> n \<le> 122)
         \<or> n = 170 \<or> n = 178 \<or> n = 179 \<or> n = 181 \<or> n = 185 \<or> n = 186
         \<or> (188 \<le> n \<and> n \<le> 190) \<or> (192 \<le> n \<and> n \<le> 214) \<or> (216 \<le> n \<and> n \<le> 246)
         \<or> (248 \<le> n \<and> n \<le> 255))"

definition lower :: "string \<Rightarrow> string" where
  "lower s = map lower_char s"

definition lstrip :: "string \<Rightarrow> string" where
  "lstrip s = dropWhile isspace s"

definition rstrip :: "string \<Rightarrow> string" where
  "rstrip s = rev (dropWhile isspace (rev s))"

definition strip :: "string \<Rightarrow> string" where
  "strip s = rstrip (lstrip s)"

definition rstrip_chars :: "string \<Rightarrow> string \<Rightarrow> string" where
  \<comment> \<open>\<^verbatim>\<open>s.rstrip(chars)\<close>\<close>
  "rstrip_chars s chars = rev (dropWhile (\<lambda>c. c \<in> set chars) (rev s))"

fun startswith :: "string \<Rightarrow> string \<Rightarrow> bool" where
  "startswith s [] = True"
| "startswith [] (p # ps) = False"
| "startswith (x # xs) (p # ps) = (if x = p then startswith xs ps else False)"

definition startswith_any :: "string \<Rightarrow> string list \<Rightarrow> bool" where
  \<comment> \<open>\<^verbatim>\<open>s.startswith(tuple)\<close>\<close>
  "startswith_any s ps = list_ex (startswith s) ps"

definition endswith :: "string \<Rightarrow> string \<Rightarrow> bool" where
  "endswith s suf = startswith (rev s) (rev suf)"

fun contains :: "string \<Rightarrow> string \<Rightarrow> bool" where
  \<comment> \<open>\<^verbatim>\<open>sub in s\<close>\<close>
  "contains sub [] = (sub = [])"
| "contains sub (x # xs) = (if startswith (x # xs) sub then True else contains sub xs)"

function digits :: "nat \<Rightarrow> string" where
  "digits n = (if n < 10 then [char_of (48 + n)] else digits (n div 10) @ [char_of (48 + n mod 10)])"
  by pat_completeness auto
termination by (relation "measure id") auto

declare digits.simps [simp del]

definition str_int :: "int \<Rightarrow> string" where
  \<comment> \<open>how an f-string renders an \<^verbatim>\<open>int\<close>\<close>
  "str_int i = (if i < 0 then CHR ''-'' # digits (nat (- i)) else digits (nat i))"

section \<open>The regular expressions of \<^verbatim>\<open>src/main.py\<close>\<close>

text \<open>
  Every pattern of the source is a sequence of literal characters, \<^verbatim>\<open>\b\<close> and
  \<^verbatim>\<open>\s+\<close>. \<^verbatim>\<open>re.search\<close> and \<^verbatim>\<open>re.match\<close> are used for their truth value
  only, so the matcher decides whether some match exists, as backtracking does.
\<close>

datatype re_item = Lit char | WordB | Spaces

type_synonym regex = "re_item list"

definition word_boundary :: "char option \<Rightarrow> string \<Rightarrow> bool" where
  \<comment> \<open>\<^verbatim>\<open>\b\<close> between the previous character (if any) and the rest of the text\<close>
  "word_boundary prev s =
     ((case prev of None \<Rightarrow> False | Some c \<Rightarrow> is_word c)
        \<noteq> (case s of [] \<Rightarrow> False | x # _ \<Rightarrow> is_word x))"

fun match_here :: "regex \<Rightarrow> char option \<Rightarrow> string \<Rightarrow> bool" where
  "match_here [] prev s = True"
| "match_here (Lit c # r) prev s =
     (case s of [] \<Rightarrow> False
      | x # xs \<Rightarrow> if x = c then match_here r (Some x) xs else False)"
| "match_here (WordB # r) prev s = (if word_boundary prev s then match_here r prev s else False)"
| "match_here (Spaces # r) prev s =
     (case s of [] \<Rightarrow> False
      | x # xs \<Rightarrow>
          if isspace x
          then (if match_here r (Some x) xs then True else match_here (Spaces # r) (Some x) xs)
          else False)"

fun search_from :: "regex \<Rightarrow> char option \<Rightarrow> string \<Rightarrow> bool" where
  "search_from r prev [] = match_here r prev []"
| "search_from r prev (x # xs) =
     (if match_here r prev (x # xs) then True else search_from r (Some x) xs)"

definition re_search :: "regex \<Rightarrow> string \<Rightarrow> bool" where
  "re_search r s = search_from r None s"

definition re_match :: "regex \<Rightarrow> string \<Rightarrow> bool" where
  "re_match r s = match_here r None s"

fun count_from :: "regex \<Rightarrow> char option \<Rightarrow> string \<Rightarrow> nat" where
  \<comment> \<open>the number of positions of the text at which the pattern matches\<close>
  "count_from r prev [] = (if match_here r prev [] then 1 else 0)"
| "count_from r prev (x # xs) =
     (if match_here r prev (x # xs) then 1 else 0) + count_from r (Some x) xs"

definition re_count :: "regex \<Rightarrow> string \<Rightarrow> nat" where
  "re_count r s = count_from r None s"

definition lit :: "string \<Rightarrow> regex" where
  "lit w = map Lit w"

definition kw :: "string \<Rightarrow> regex" where
  \<comment> \<open>\<^verbatim>\<open>\bw\b\<close>\<close>
  "kw w = WordB # lit w @ [WordB]"

definition kw2 :: "string \<Rightarrow> string \<Rightarrow> regex" where
  \<comment> \<open>\<^verbatim>\<open>\bw1\s+w2\b\<close>\<close>
  "kw2 w1 w2 = WordB # lit w1 @ Spaces # lit w2 @ [WordB]"

section \<open>The Limiter: \<^verbatim>\<open>_wrap_query_with_limit\<close>\<close>

definition wrap_query_with_limit :: "string \<Rightarrow> int \<Rightarrow> string" where
  "wrap_query_with_limit sql max_rows =
     (let cleaned = rstrip_chars (strip sql) '';'';
          lower_sql = lstrip (lower cleaned)
      in if \<not> startswith lower_sql ''select'' then cleaned
         else if re_search (kw ''limit'') lower_sql then cleaned
         else ''SELECT * FROM ('' @ cleaned @ '') AS subquery LIMIT '' @ str_int max_rows)"

definition limiter :: "string \<Rightarrow> string" where
  \<comment> \<open>the call of \<^verbatim>\<open>run_query\<close>, with the default \<^verbatim>\<open>max_rows\<close>\<close>
  "limiter sql = wrap_query_with_limit sql 1000"

section \<open>The Validator: \<^verbatim>\<open>_validate_sql\<close>\<close>

datatype HTTPException = HTTPException (status_code: nat) (detail: string)

definition FORBIDDEN_PATTERNS :: "regex list" where
  "FORBIDDEN_PATTERNS =
     [kw ''read_csv_auto'', kw ''read_parquet'', kw ''parquet_scan'', kw ''httpfs'',
      kw ''copy'', kw ''attach'', kw ''detach'', kw ''pragma'', kw ''install'', kw ''load'',
      kw ''export'', kw ''import'', kw2 ''create'' ''table'', kw2 ''drop'' ''table'',
      kw ''alter'', kw ''truncate'', kw ''call'', kw ''system'']"

definition allowed_verbs :: "string list" where
  "allowed_verbs = [''select'', ''insert'', ''update'', ''delete'']"

definition update_pat :: regex where
  \<comment> \<open>\<^verbatim>\<open>update\s+tablename\b\<close>\<close>
  "update_pat = lit ''update'' @ Spaces # lit ''tablename'' @ [WordB]"

definition delete_pat :: regex where
  \<comment> \<open>\<^verbatim>\<open>delete\s+from\s+tablename\b\<close>\<close>
  "delete_pat = lit ''delete'' @ Spaces # lit ''from'' @ Spaces # lit ''tablename'' @ [WordB]"

definition insert_pat :: regex where
  \<comment> \<open>\<^verbatim>\<open>insert\s+into\s+tablename\b\<close>\<close>
  "insert_pat = lit ''insert'' @ Spaces # lit ''into'' @ Spaces # lit ''tablename'' @ [WordB]"

definition err_empty :: HTTPException where
  "err_empty = HTTPException 400 ''SQL query cannot be empty.''"

definition err_multiple :: HTTPException where
  "err_multiple = HTTPException 400
     ''Multiple SQL statements are not allowed. Please run one statement at a time.''"

definition err_verb :: HTTPException where
  "err_verb = HTTPException 400 ''Only SELECT, INSERT, UPDATE and DELETE statements are allowed.''"

definition err_filesystem :: HTTPException where
  "err_filesystem = HTTPException 400 ''File system access is not allowed.''"

definition err_forbidden :: HTTPException where
  "err_forbidden = HTTPException 400 ''This query uses a disallowed command or function.''"

definition err_join :: HTTPException where
  "err_join = HTTPException 400
     ''JOIN is not allowed. You can only work with the 'tablename' table.''"

definition err_table :: HTTPException where
  "err_table = HTTPException 400
     ''You can only access the 'tablename' table loaded from your CSV.''"

definition err_update :: HTTPException where
  "err_update = HTTPException 400 ''You can only UPDATE the 'tablename' table.''"

definition err_delete :: HTTPException where
  "err_delete = HTTPException 400 ''You can only DELETE from the 'tablename' table.''"

definition err_insert :: HTTPException where
  "err_insert = HTTPException 400 ''You can only INSERT into the 'tablename' table.''"

definition strip_terminator :: "string \<Rightarrow> string" where
  \<comment> \<open>lines 163 to 165: \<^verbatim>\<open>stripped\<close>\<close>
  "strip_terminator sql =
     (let stripped = strip sql
      in if endswith stripped '';'' then butlast stripped else stripped)"

definition validate_sql :: "string \<Rightarrow> HTTPException + string" where
  "validate_sql sql =
     (if sql = [] \<or> strip sql = [] then Inl err_empty
      else
        let stripped = strip_terminator sql;
            lower_sql = lower stripped
        in if contains '';'' lower_sql then Inl err_multiple
           else if \<not> startswith_any (lstrip lower_sql) allowed_verbs then Inl err_verb
           else if contains ''/etc/'' lower_sql \<or> contains ''..'' lower_sql then Inl err_filesystem
           else if list_ex (\<lambda>pattern. re_search pattern lower_sql) FORBIDDEN_PATTERNS
             then Inl err_forbidden
           else if re_search (kw ''join'') lower_sql then Inl err_join
           else if re_search (kw ''from'') lower_sql
                   \<and> \<not> re_search (kw2 ''from'' ''tablename'') lower_sql then Inl err_table
           else if startswith lower_sql ''update '' \<and> \<not> re_match update_pat lower_sql
             then Inl err_update
           else if startswith lower_sql ''delete '' \<and> \<not> re_match delete_pat lower_sql
             then Inl err_delete
           else if startswith lower_sql ''insert '' \<and> \<not> re_match insert_pat lower_sql
             then Inl err_insert
           else Inr stripped)"

section \<open>The rule chain of the Validator as an ordered list of checks\<close>

text \<open>
  The specification describes the Validator as an ordered list of checks, each with its
  rejection, where the first failing check decides. \<open>spec_validate\<close> is that
  description; it is compared with \<open>validate_sql\<close> below.
\<close>

definition folded :: "string \<Rightarrow> string" where
  \<comment> \<open>the working copy the checks look at: \<^verbatim>\<open>lower_sql\<close>\<close>
  "folded sql = lower (strip_terminator sql)"

definition validator_checks :: "((string \<Rightarrow> bool) \<times> HTTPException) list" where
  "validator_checks =
     [(\<lambda>sql. list_all isspace sql, err_empty),
      (\<lambda>sql. contains '';'' (folded sql), err_multiple),
      (\<lambda>sql. \<not> startswith_any (lstrip (folded sql)) allowed_verbs, err_verb),
      (\<lambda>sql. contains ''/etc/'' (folded sql) \<or> contains ''..'' (folded sql), err_filesystem),
      (\<lambda>sql. list_ex (\<lambda>pattern. re_search pattern (folded sql)) FORBIDDEN_PATTERNS,
         err_forbidden),
      (\<lambda>sql. re_search (kw ''join'') (folded sql), err_join),
      (\<lambda>sql. re_search (kw ''from'') (folded sql)
              \<and> \<not> re_search (kw2 ''from'' ''tablename'') (folded sql), err_table),
      (\<lambda>sql. startswith (folded sql) ''update '' \<and> \<not> re_match update_pat (folded sql),
         err_update),
      (\<lambda>sql. startswith (folded sql) ''delete '' \<and> \<not> re_match delete_pat (folded sql),
         err_delete),
      (\<lambda>sql. startswith (folded sql) ''insert '' \<and> \<not> re_match insert_pat (folded sql),
         err_insert)]"

fun first_failure :: "(('a \<Rightarrow> bool) \<times> 'e) list \<Rightarrow> 'a \<Rightarrow> 'e option" where
  "first_failure [] x = None"
| "first_failure ((fails, e) # checks) x = (if fails x then Some e else first_failure checks x)"

definition spec_validate :: "string \<Rightarrow> HTTPException + string" where
  "spec_validate sql =
     (case first_failure validator_checks sql of
        Some e \<Rightarrow> Inl e
      | None \<Rightarrow> Inr (strip_terminator sql))"

section \<open>Notions used in the proofs\<close>

definition passes_checks :: "string \<Rightarrow> bool" where
  \<comment> \<open>no check of lines 169 to 233 rejects the folded text\<close>
  "passes_checks lower_sql =
     (\<not> contains '';'' lower_sql
      \<and> startswith_any (lstrip lower_sql) allowed_verbs
      \<and> \<not> contains ''/etc/'' lower_sql \<and> \<not> contains ''..'' lower_sql
      \<and> \<not> list_ex (\<lambda>pattern. re_search pattern lower_sql) FORBIDDEN_PATTERNS
      \<and> \<not> re_search (kw ''join'') lower_sql
      \<and> (re_search (kw ''from'') lower_sql \<longrightarrow> re_search (kw2 ''from'' ''tablename'') lower_sql)
      \<and> (startswith lower_sql ''update '' \<longrightarrow> re_match update_pat lower_sql)
      \<and> (startswith lower_sql ''delete '' \<longrightarrow> re_match delete_pat lower_sql)
      \<and> (startswith lower_sql ''insert '' \<longrightarrow> re_match insert_pat lower_sql))"

fun trail_safe :: "regex \<Rightarrow> bool" where
  \<comment> \<open>no match of the pattern ends in whitespace\<close>
  "trail_safe [] = True"
| "trail_safe (Lit c # r) = (if isspace c then False else trail_safe r)"
| "trail_safe (WordB # r) = trail_safe r"
| "trail_safe (Spaces # r) = (if list_ex (\<lambda>t. t \<noteq> WordB) r then trail_safe r else False)"

definition all_patterns :: "regex list" where
  "all_patterns =
     FORBIDDEN_PATTERNS
       @ [kw ''join'', kw ''from'', kw2 ''from'' ''tablename'', kw ''limit'',
          update_pat, delete_pat, insert_pat]"

definition wrap_inert :: "regex \<Rightarrow> bool" where
  \<comment> \<open>the pattern matches neither a parenthesis nor inside the text the Limiter adds\<close>
  "wrap_inert r =
     (if Lit (CHR ''('') \<in> set r \<or> Lit (CHR '')'') \<in> set r then False
      else if re_search r ''select * from '' then False
      else \<not> re_search r '' as subquery limit 1000'')"

definition wrapped :: "string \<Rightarrow> string" where
  \<comment> \<open>line 124 with the default row cap\<close>
  "wrapped c = ''SELECT * FROM ('' @ c @ '') AS subquery LIMIT 1000''"

definition wrapped_lower :: "string \<Rightarrow> string" where
  "wrapped_lower l = ''select * from ('' @ l @ '') as subquery limit 1000''"

section \<open>Lemmas\<close>

subsection \<open>The character tables on the characters of the examples\<close>

lemma isspace_lits:
  "\<not> isspace (CHR ''a'')" "\<not> isspace (CHR ''b'')" "\<not> isspace (CHR ''c'')"
  "\<not> isspace (CHR ''d'')" "\<not> isspace (CHR ''e'')" "\<not> isspace (CHR ''f'')"
  "\<not> isspace (CHR ''g'')" "\<not> isspace (CHR ''h'')" "\<not> isspace (CHR ''i'')"
  "\<not> isspace (CHR ''j'')" "\<not> isspace (CHR ''k'')" "\<not> isspace (CHR ''l'')"
  "\<not> isspace (CHR ''m'')" "\<not> isspace (CHR ''n'')" "\<not> isspace (CHR ''o'')"
  "\<not> isspace (CHR ''p'')" "\<not> isspace (CHR ''q'')" "\<not> isspace (CHR ''r'')"
  "\<not> isspace (CHR ''s'')" "\<not> isspace (CHR ''t'')" "\<not> isspace (CHR ''u'')"
  "\<not> isspace (CHR ''v'')" "\<not> isspace (CHR ''w'')" "\<not> isspace (CHR ''x'')"
  "\<not> isspace (CHR ''y'')" "\<not> isspace (CHR ''z'')" "\<not> isspace (CHR ''A'')"
  "\<not> isspace (CHR ''B'')" "\<not> isspace (CHR ''C'')" "\<not> isspace (CHR ''D'')"
  "\<not> isspace (CHR ''E'')" "\<not> isspace (CHR ''F'')" "\<not> isspace (CHR ''G'')"
  "\<not> isspace (CHR ''H'')" "\<not> isspace (CHR ''I'')" "\<not> isspace (CHR ''J'')"
  "\<not> isspace (CHR ''K'')" "\<not> isspace (CHR ''L'')" "\<not> isspace (CHR ''M'')"
  "\<not> isspace (CHR ''N'')" "\<not> isspace (CHR ''O'')" "\<not> isspace (CHR ''P'')"
  "\<not> isspace (CHR ''Q'')" "\<not> isspace (CHR ''R'')" "\<not> isspace (CHR ''S'')"
  "\<not> isspace (CHR ''T'')" "\<not> isspace (CHR ''U'')" "\<not> isspace (CHR ''V'')"
  "\<not> isspace (CHR ''W'')" "\<not> isspace (CHR ''X'')" "\<not> isspace (CHR ''Y'')"
  "\<not> isspace (CHR ''Z'')" "\<not> isspace (CHR ''0'')" "\<not> isspace (CHR ''1'')"
  "\<not> isspace (CHR ''2'')" "\<not> isspace (CHR ''3'')" "\<not> isspace (CHR ''4'')"
  "\<not> isspace (CHR ''5'')" "\<not> isspace (CHR ''6'')" "\<not> isspace (CHR ''7'')"
  "\<not> isspace (CHR ''8'')" "\<not> isspace (CHR ''9'')" "isspace (CHR '' '')"
  "isspace (CHR 0x09)" "\<not> isspace (CHR ''*'')" "\<not> isspace (CHR ''('')"
  "\<not> isspace (CHR '')'')" "\<not> isspace (CHR ''='')" "\<not> isspace (CHR '';'')"
  "\<not> isspace (CHR ''_'')" "\<not> isspace (CHR ''.'')" "\<not> isspace (CHR ''/'')"
  "\<not> isspace (CHR '','')" "\<not> isspace (CHR 0x27)"
  by (simp_all add: isspace_def)

lemma is_word_lits:
  "is_word (CHR ''a'')" "is_word (CHR ''b'')" "is_word (CHR ''c'')" "is_word (CHR ''d'')"
  "is_word (CHR ''e'')" "is_word (CHR ''f'')" "is_word (CHR ''g'')" "is_word (CHR ''h'')"
  "is_word (CHR ''i'')" "is_word (CHR ''j'')" "is_word (CHR ''k'')" "is_word (CHR ''l'')"
  "is_word (CHR ''m'')" "is_word (CHR ''n'')" "is_word (CHR ''o'')" "is_word (CHR ''p'')"
  "is_word (CHR ''q'')" "is_word (CHR ''r'')" "is_word (CHR ''s'')" "is_word (CHR ''t'')"
  "is_word (CHR ''u'')" "is_word (CHR ''v'')" "is_word (CHR ''w'')" "is_word (CHR ''x'')"
  "is_word (CHR ''y'')" "is_word (CHR ''z'')" "is_word (CHR ''A'')" "is_word (CHR ''B'')"
  "is_word (CHR ''C'')" "is_word (CHR ''D'')" "is_word (CHR ''E'')" "is_word (CHR ''F'')"
  "is_word (CHR ''G'')" "is_word (CHR ''H'')" "is_word (CHR ''I'')" "is_word (CHR ''J'')"
  "is_word (CHR ''K'')" "is_word (CHR ''L'')" "is_word (CHR ''M'')" "is_word (CHR ''N'')"
  "is_word (CHR ''O'')" "is_word (CHR ''P'')" "is_word (CHR ''Q'')" "is_word (CHR ''R'')"
  "is_word (CHR ''S'')" "is_word (CHR ''T'')" "is_word (CHR ''U'')" "is_word (CHR ''V'')"
  "is_word (CHR ''W'')" "is_word (CHR ''X'')" "is_word (CHR ''Y'')" "is_word (CHR ''Z'')"
  "is_word (CHR ''0'')" "is_word (CHR ''1'')" "is_word (CHR ''2'')" "is_word (CHR ''3'')"
  "is_word (CHR ''4'')" "is_word (CHR ''5'')" "is_word (CHR ''6'')" "is_word (CHR ''7'')"
  "is_word (CHR ''8'')" "is_word (CHR ''9'')" "\<not> is_word (CHR '' '')"
  "\<not> is_word (CHR 0x09)" "\<not> is_word (CHR ''*'')" "\<not> is_word (CHR ''('')"
  "\<not> is_word (CHR '')'')" "\<not> is_word (CHR ''='')" "\<not> is_word (CHR '';'')"
  "is_word (CHR ''_'')" "\<not> is_word (CHR ''.'')" "\<not> is_word (CHR ''/'')"
  "\<not> is_word (CHR '','')" "\<not> is_word (CHR 0x27)"
  by (simp_all add: is_word_def)

lemma lower_char_lits:
  "lower_char (CHR ''a'') = CHR ''a''" "lower_char (CHR ''b'') = CHR ''b''"
  "lower_char (CHR ''c'') = CHR ''c''" "lower_char (CHR ''d'') = CHR ''d''"
  "lower_char (CHR ''e'') = CHR ''e''" "lower_char (CHR ''f'') = CHR ''f''"
  "lower_char (CHR ''g'') = CHR ''g''" "lower_char (CHR ''h'') = CHR ''h''"
  "lower_char (CHR ''i'') = CHR ''i''" "lower_char (CHR ''j'') = CHR ''j''"
  "lower_char (CHR ''k'') = CHR ''k''" "lower_char (CHR ''l'') = CHR ''l''"
  "lower_char (CHR ''m'') = CHR ''m''" "lower_char (CHR ''n'') = CHR ''n''"
  "lower_char (CHR ''o'') = CHR ''o''" "lower_char (CHR ''p'') = CHR ''p''"
  "lower_char (CHR ''q'') = CHR ''q''" "lower_char (CHR ''r'') = CHR ''r''"
  "lower_char (CHR ''s'') = CHR ''s''" "lower_char (CHR ''t'') = CHR ''t''"
  "lower_char (CHR ''u'') = CHR ''u''" "lower_char (CHR ''v'') = CHR ''v''"
  "lower_char (CHR ''w'') = CHR ''w''" "lower_char (CHR ''x'') = CHR ''x''"
  "lower_char (CHR ''y'') = CHR ''y''" "lower_char (CHR ''z'') = CHR ''z''"
  "lower_char (CHR ''A'') = CHR ''a''" "lower_char (CHR ''B'') = CHR ''b''"
  "lower_char (CHR ''C'') = CHR ''c''" "lower_char (CHR ''D'') = CHR ''d''"
  "lower_char (CHR ''E'') = CHR ''e''" "lower_char (CHR ''F'') = CHR ''f''"
  "lower_char (CHR ''G'') = CHR ''g''" "lower_char (CHR ''H'') = CHR ''h''"
  "lower_char (CHR ''I'') = CHR ''i''" "lower_char (CHR ''J'') = CHR ''j''"
  "lower_char (CHR ''K'') = CHR ''k''" "lower_char (CHR ''L'') = CHR ''l''"
  "lower_char (CHR ''M'') = CHR ''m''" "lower_char (CHR ''N'') = CHR ''n''"
  "lower_char (CHR ''O'') = CHR ''o''" "lower_char (CHR ''P'') = CHR ''p''"
  "lower_char (CHR ''Q'') = CHR ''q''" "lower_char (CHR ''R'') = CHR ''r''"
  "lower_char (CHR ''S'') = CHR ''s''" "lower_char (CHR ''T'') = CHR ''t''"
  "lower_char (CHR ''U'') = CHR ''u''" "lower_char (CHR ''V'') = CHR ''v''"
  "lower_char (CHR ''W'') = CHR ''w''" "lower_char (CHR ''X'') = CHR ''x''"
  "lower_char (CHR ''Y'') = CHR ''y''" "lower_char (CHR ''Z'') = CHR ''z''"
  "lower_char (CHR ''0'') = CHR ''0''" "lower_char (CHR ''1'') = CHR ''1''"
  "lower_char (CHR ''2'') = CHR ''2''" "lower_char (CHR ''3'') = CHR ''3''"
  "lower_char (CHR ''4'') = CHR ''4''" "lower_char (CHR ''5'') = CHR ''5''"
  "lower_char (CHR ''6'') = CHR ''6''" "lower_char (CHR ''7'') = CHR ''7''"
  "lower_char (CHR ''8'') = CHR ''8''" "lower_char (CHR ''9'') = CHR ''9''"
  "lower_char (CHR '' '') = CHR '' ''" "lower_char (CHR 0x09) = CHR 0x09"
  "lower_char (CHR ''*'') = CHR ''*''" "lower_char (CHR ''('') = CHR ''(''"
  "lower_char (CHR '')'') = CHR '')''" "lower_char (CHR ''='') = CHR ''=''"
  "lower_char (CHR '';'') = CHR '';''" "lower_char (CHR ''_'') = CHR ''_''"
  "lower_char (CHR ''.'') = CHR ''.''" "lower_char (CHR ''/'') = CHR ''/''"
  "lower_char (CHR '','') = CHR '',''" "lower_char (CHR 0x27) = CHR 0x27"
  by (simp_all add: lower_char_def char_of_def bit_Suc_0_iff)

lemma str_int_1000: "str_int 1000 = ''1000''"
  by (simp add: str_int_def digits.simps [of 1000] digits.simps [of 100] digits.simps [of 10]
      digits.simps [of "Suc 0"] char_of_def bit_Suc_0_iff)

lemmas ev =
  validate_sql_def strip_terminator_def strip_def lstrip_def rstrip_def rstrip_chars_def
  endswith_def lower_def startswith_any_def allowed_verbs_def FORBIDDEN_PATTERNS_def
  kw_def kw2_def lit_def re_search_def re_match_def re_count_def word_boundary_def
  update_pat_def delete_pat_def insert_pat_def folded_def
  wrap_query_with_limit_def limiter_def str_int_1000
  isspace_lits is_word_lits lower_char_lits
  match_here.simps search_from.simps count_from.simps startswith.simps contains.simps
  list.case option.case list.map append.simps rev.simps dropWhile.simps
  list_ex_Nil_iff list_ex_Cons_iff list.pred_inject list.inject list.distinct list.set
  char.inject simp_thms if_True if_False Let_def sum.inject sum.distinct butlast.simps
  re_item.inject re_item.distinct insert_iff empty_iff
  de_Morgan_disj de_Morgan_conj

subsection \<open>Characters and text primitives\<close>

lemma lower_char_semicolon: "(lower_char c = CHR '';'') = (c = CHR '';'')"
proof -
  { fix n :: nat
    assume a: "char_of (n + 32) = CHR '';''" and b: "n \<le> 222" and c: "65 \<le> n"
    from a have "(of_char (char_of (n + 32)) :: nat) = of_char (CHR '';'')" by simp
    hence "(n + 32) mod 256 = 59" by simp
    with b c have False by simp }
  note r = this
  show ?thesis
    by (auto simp: lower_char_def Let_def dest: r)
qed

lemma isspace_not_word: "isspace c \<Longrightarrow> \<not> is_word c"
  by (auto simp: isspace_def is_word_def Let_def)

lemma isspace_lower_char [simp]: "isspace (lower_char c) = isspace c"
  by (auto simp: isspace_def lower_char_def Let_def)

lemma lower_append [simp]: "lower (a @ b) = lower a @ lower b"
  by (simp add: lower_def)

lemma lower_Nil [simp]: "lower [] = []"
  by (simp add: lower_def)

lemma lower_eq_Nil [simp]: "(lower s = []) = (s = [])"
  by (simp add: lower_def)

lemma list_all_isspace_lower [simp]: "list_all isspace (lower ws) = list_all isspace ws"
  by (induction ws) (simp_all add: lower_def)

lemma startswith_take: "startswith s p = (take (length p) s = p)"
  by (induction s p rule: startswith.induct) auto

lemma startswith_append: "startswith s p = (\<exists>r. s = p @ r)"
  by (induction s p rule: startswith.induct) auto

lemma contains_single [simp]: "contains [c] s = (c \<in> set s)"
  by (induction s) (auto simp: startswith_take)

lemma set_lower_semicolon [simp]: "(CHR '';'' \<in> set (lower s)) = (CHR '';'' \<in> set s)"
proof (induction s)
  case Nil
  show ?case by (simp add: lower_def)
next
  case (Cons a s)
  have "(CHR '';'' = lower_char a) = (CHR '';'' = a)"
    using lower_char_semicolon [of a] by (simp only: eq_commute [of "CHR '';''"])
  with Cons show ?case by (simp add: lower_def)
qed

lemma rstrip_decomp: "\<exists>ws. s = rstrip s @ ws \<and> list_all isspace ws"
proof -
  have "rev s = takeWhile isspace (rev s) @ dropWhile isspace (rev s)" by simp
  hence "s = rev (dropWhile isspace (rev s)) @ rev (takeWhile isspace (rev s))"
    by (metis rev_append rev_rev_ident)
  moreover have "list_all isspace (rev (takeWhile isspace (rev s)))"
    by (simp add: list_all_iff) (meson set_takeWhileD)
  ultimately show ?thesis unfolding rstrip_def by blast
qed

lemma rstrip_last: "rstrip s \<noteq> [] \<Longrightarrow> \<not> isspace (last (rstrip s))"
  unfolding rstrip_def
  by (metis hd_dropWhile last_rev rev_is_Nil_conv)

lemma lstrip_hd: "lstrip s \<noteq> [] \<Longrightarrow> \<not> isspace (hd (lstrip s))"
  unfolding lstrip_def by (simp add: hd_dropWhile)

lemma lstrip_id: "s = [] \<or> \<not> isspace (hd s) \<Longrightarrow> lstrip s = s"
  unfolding lstrip_def by (cases s) auto

lemma rstrip_id: "s = [] \<or> \<not> isspace (last s) \<Longrightarrow> rstrip s = s"
  unfolding rstrip_def by (cases s rule: rev_cases) auto

lemma strip_Nil [simp]: "strip [] = []"
  by (simp add: strip_def lstrip_def rstrip_def)

lemma strip_eq_Nil: "(strip s = []) = list_all isspace s"
proof -
  have "(\<forall>x\<in>set (dropWhile isspace s). isspace x) = (\<forall>x\<in>set s. isspace x)"
  proof
    assume a: "\<forall>x\<in>set (dropWhile isspace s). isspace x"
    have "dropWhile isspace s = []"
    proof (rule ccontr)
      assume n: "dropWhile isspace s \<noteq> []"
      hence "\<not> isspace (hd (dropWhile isspace s))" by (rule hd_dropWhile)
      with a n show False by (meson hd_in_set)
    qed
    thus "\<forall>x\<in>set s. isspace x" by (simp add: dropWhile_eq_Nil_conv)
  next
    assume "\<forall>x\<in>set s. isspace x"
    thus "\<forall>x\<in>set (dropWhile isspace s). isspace x" by (meson set_dropWhileD)
  qed
  thus ?thesis
    by (simp add: strip_def lstrip_def rstrip_def dropWhile_eq_Nil_conv list_all_iff)
qed

lemma rstrip_hd: "rstrip s \<noteq> [] \<Longrightarrow> hd (rstrip s) = hd s"
  using rstrip_decomp [of s] by (metis hd_append2)

lemma strip_hd: "strip s \<noteq> [] \<Longrightarrow> \<not> isspace (hd (strip s))"
  unfolding strip_def
  by (metis lstrip_hd rstrip_hd rstrip_def rev.simps(1) dropWhile.simps(1))

lemma strip_last: "strip s \<noteq> [] \<Longrightarrow> \<not> isspace (last (strip s))"
  unfolding strip_def by (rule rstrip_last)

lemma strip_id: "s = [] \<or> (\<not> isspace (hd s) \<and> \<not> isspace (last s)) \<Longrightarrow> strip s = s"
  unfolding strip_def by (auto simp: lstrip_id rstrip_id)

lemma strip_strip [simp]: "strip (strip s) = strip s"
  by (rule strip_id) (use strip_hd strip_last in blast)

lemma endswith_single: "endswith s [c] = (s \<noteq> [] \<and> last s = c)"
  by (cases s rule: rev_cases) (simp_all add: endswith_def)

lemma rstrip_chars_id: "s = [] \<or> last s \<notin> set cs \<Longrightarrow> rstrip_chars s cs = s"
  unfolding rstrip_chars_def by (cases s rule: rev_cases) auto

subsection \<open>When the Validator accepts\<close>

lemma validate_sql_Inr_iff:
  "(validate_sql sql = Inr v) =
     (strip sql \<noteq> [] \<and> v = strip_terminator sql \<and> passes_checks (lower v))"
  unfolding validate_sql_def passes_checks_def Let_def
  by (cases "sql = []") auto

lemma validate_sql_spec: "validate_sql sql = spec_validate sql"
  unfolding validate_sql_def spec_validate_def validator_checks_def folded_def Let_def
  by (simp add: strip_eq_Nil)

subsection \<open>Matching does not look past a separating character\<close>

lemma match_here_prev:
  "(case p of None \<Rightarrow> False | Some c \<Rightarrow> is_word c) = (case q of None \<Rightarrow> False | Some c \<Rightarrow> is_word c)
   \<Longrightarrow> match_here r p s = match_here r q s"
  by (induction r p s arbitrary: q rule: match_here.induct)
     (auto simp: word_boundary_def split: list.splits)

lemma match_here_nonword_prev: "\<not> is_word d \<Longrightarrow> match_here r (Some d) s = match_here r None s"
  by (rule match_here_prev) simp

lemma search_from_nonword_prev:
  "\<not> is_word d \<Longrightarrow> search_from r (Some d) s = search_from r None s"
  by (cases s) (simp_all add: match_here_nonword_prev)

lemma count_from_nonword_prev:
  "\<not> is_word d \<Longrightarrow> count_from r (Some d) s = count_from r None s"
  by (cases s) (simp_all add: match_here_nonword_prev)

lemma match_here_sep:
  assumes "Lit d \<notin> set r" "\<not> isspace d" "\<not> is_word d"
  shows "match_here r prev (a @ d # b) = match_here r prev a"
  using assms
proof (induction r prev a rule: match_here.induct)
  case (1 prev s)
  show ?case by simp
next
  case (2 c r prev s)
  thus ?case by (cases s) auto
next
  case (3 r prev s)
  have "word_boundary prev (s @ d # b) = word_boundary prev s"
    using 3(4) by (cases s) (simp_all add: word_boundary_def)
  with 3 show ?case by auto
next
  case (4 r prev s)
  thus ?case by (cases s) auto
qed

lemma search_from_sep:
  assumes "Lit d \<notin> set r" "\<not> isspace d" "\<not> is_word d"
  shows "search_from r prev (a @ d # b) = (search_from r prev a \<or> search_from r None b)"
proof (induction a arbitrary: prev)
  case Nil
  have "match_here r prev (d # b) = match_here r prev []"
    using match_here_sep [OF assms, of prev "[]" b] by simp
  thus ?case using assms(3) by (simp add: search_from_nonword_prev)
next
  case (Cons x a)
  have "match_here r prev (x # a @ d # b) = match_here r prev (x # a)"
    using match_here_sep [OF assms, of prev "x # a" b] by simp
  with Cons show ?case by simp
qed

lemma count_from_sep:
  assumes "Lit d \<notin> set r" "\<not> isspace d" "\<not> is_word d"
  shows "count_from r prev (a @ d # b) = count_from r prev a + count_from r None b"
proof (induction a arbitrary: prev)
  case Nil
  have "match_here r prev (d # b) = match_here r prev []"
    using match_here_sep [OF assms, of prev "[]" b] by simp
  thus ?case using assms(3) by (simp add: count_from_nonword_prev)
next
  case (Cons x a)
  have "match_here r prev (x # a @ d # b) = match_here r prev (x # a)"
    using match_here_sep [OF assms, of prev "x # a" b] by simp
  with Cons show ?case by simp
qed

lemma count_from_zero: "(count_from r prev s = 0) = (\<not> search_from r prev s)"
  by (induction s arbitrary: prev) simp_all

lemma re_search_sep:
  assumes "Lit d \<notin> set r" "\<not> isspace d" "\<not> is_word d"
  shows "re_search r (a @ d # b) = (re_search r a \<or> re_search r b)"
  unfolding re_search_def by (rule search_from_sep [OF assms])

lemma re_count_sep:
  assumes "Lit d \<notin> set r" "\<not> isspace d" "\<not> is_word d"
  shows "re_count r (a @ d # b) = re_count r a + re_count r b"
  unfolding re_count_def by (rule count_from_sep [OF assms])

lemma re_count_zero: "(re_count r s = 0) = (\<not> re_search r s)"
  unfolding re_count_def re_search_def by (rule count_from_zero)

subsection \<open>Trailing whitespace does not change a match\<close>

lemma match_here_consuming_Nil: "list_ex (\<lambda>t. t \<noteq> WordB) r \<Longrightarrow> \<not> match_here r prev []"
proof (induction r)
  case Nil
  thus ?case by simp
next
  case (Cons t r)
  thus ?case by (cases t) auto
qed

lemma match_here_Nil_mono: "match_here r None [] \<Longrightarrow> match_here r prev []"
proof (cases r)
  case Nil
  thus ?thesis by simp
next
  case (Cons t r')
  assume "match_here r None []"
  with Cons show ?thesis by (cases t) (simp_all add: word_boundary_def)
qed

lemma match_here_trail1:
  assumes "trail_safe r" "isspace w"
  shows "match_here r prev (a @ [w]) = match_here r prev a"
  using assms(1)
proof (induction r prev a rule: match_here.induct)
  case (1 prev s)
  show ?case by simp
next
  case (2 c r prev s)
  thus ?case using assms(2) by (cases s) (auto split: if_splits)
next
  case (3 r prev s)
  have "word_boundary prev (s @ [w]) = word_boundary prev s"
    using isspace_not_word [OF assms(2)] by (cases s) (simp_all add: word_boundary_def)
  with 3 show ?case by auto
next
  case (4 r prev s)
  from 4(3) have c: "list_ex (\<lambda>t. t \<noteq> WordB) r" and t: "trail_safe r"
    by (simp_all split: if_splits)
  show ?case
  proof (cases s)
    case Nil
    thus ?thesis using match_here_consuming_Nil [OF c] by simp
  next
    case (Cons x xs)
    thus ?thesis using 4(1) [OF Cons _ t] 4(2) [OF Cons _ _ 4(3)] by auto
  qed
qed

lemma match_here_trail:
  assumes "trail_safe r" "list_all isspace ws"
  shows "match_here r prev (a @ ws) = match_here r prev a"
  using assms(2)
proof (induction ws arbitrary: a)
  case Nil
  show ?case by simp
next
  case (Cons w ws)
  from Cons.prems have w: "isspace w" and ws: "list_all isspace ws" by simp_all
  have "match_here r prev (a @ w # ws) = match_here r prev ((a @ [w]) @ ws)" by simp
  also have "\<dots> = match_here r prev (a @ [w])" by (rule Cons.IH [OF ws])
  also have "\<dots> = match_here r prev a" by (rule match_here_trail1 [OF assms(1) w])
  finally show ?case .
qed

lemma search_from_trail1:
  assumes "trail_safe r" "isspace w"
  shows "search_from r prev (a @ [w]) = search_from r prev a"
proof (induction a arbitrary: prev)
  case Nil
  have 1: "match_here r prev [w] = match_here r prev []"
    using match_here_trail1 [OF assms, of prev "[]"] by simp
  have "match_here r (Some w) [] = match_here r None []"
    using isspace_not_word [OF assms(2)] by (rule match_here_nonword_prev)
  hence 2: "match_here r (Some w) [] \<Longrightarrow> match_here r prev []"
    using match_here_Nil_mono by blast
  from 1 2 show ?case by auto
next
  case (Cons x a)
  have "match_here r prev (x # a @ [w]) = match_here r prev (x # a)"
    using match_here_trail1 [OF assms, of prev "x # a"] by simp
  with Cons show ?case by simp
qed

lemma search_from_trail:
  assumes "trail_safe r" "list_all isspace ws"
  shows "search_from r prev (a @ ws) = search_from r prev a"
  using assms(2)
proof (induction ws arbitrary: a)
  case Nil
  show ?case by simp
next
  case (Cons w ws)
  from Cons.prems have w: "isspace w" and ws: "list_all isspace ws" by simp_all
  have "search_from r prev (a @ w # ws) = search_from r prev ((a @ [w]) @ ws)" by simp
  also have "\<dots> = search_from r prev (a @ [w])" by (rule Cons.IH [OF ws])
  also have "\<dots> = search_from r prev a" by (rule search_from_trail1 [OF assms(1) w])
  finally show ?case .
qed

lemma re_search_trail:
  "trail_safe r \<Longrightarrow> list_all isspace ws \<Longrightarrow> re_search r (a @ ws) = re_search r a"
  unfolding re_search_def by (rule search_from_trail)

lemma re_match_trail:
  "trail_safe r \<Longrightarrow> list_all isspace ws \<Longrightarrow> re_match r (a @ ws) = re_match r a"
  unfolding re_match_def by (rule match_here_trail)

lemma all_patterns_trail_safe: "list_all trail_safe all_patterns"
  unfolding all_patterns_def
  by (simp only: ev trail_safe.simps cong: if_weak_cong)

subsection \<open>Prefixes and substrings under appended text\<close>

lemma startswith_mono: "startswith a w \<Longrightarrow> startswith (a @ b) w"
  by (induction a w rule: startswith.induct) (auto split: if_splits)

lemma startswith_trail:
  "list_all isspace ws \<Longrightarrow> \<forall>c\<in>set w. \<not> isspace c \<Longrightarrow> startswith (a @ ws) w = startswith a w"
proof (induction a w rule: startswith.induct)
  case (1 s)
  show ?case by simp
next
  case (2 p ps)
  thus ?case by (cases ws) auto
next
  case (3 x xs p ps)
  thus ?case by auto
qed

lemma startswith_sep: "d \<notin> set sub \<Longrightarrow> startswith (a @ d # b) sub = startswith a sub"
  by (induction a sub rule: startswith.induct) auto

lemma contains_mono: "contains sub a \<Longrightarrow> contains sub (a @ b)"
proof (induction a)
  case Nil
  thus ?case by (cases b) simp_all
next
  case (Cons x a)
  thus ?case using startswith_mono [of "x # a" sub b] by (auto split: if_splits)
qed

lemma contains_sep:
  assumes "d \<notin> set sub"
  shows "contains sub (a @ d # b) = (contains sub a \<or> contains sub b)"
proof (induction a)
  case Nil
  have "startswith (d # b) sub = (sub = [])"
    using assms by (cases sub) auto
  moreover have "sub = [] \<Longrightarrow> contains sub b" by (cases b) simp_all
  ultimately show ?case by auto
next
  case (Cons x a)
  have "startswith (x # a @ d # b) sub = startswith (x # a) sub"
    using startswith_sep [OF assms, of "x # a" b] by simp
  with Cons show ?case by simp
qed

subsection \<open>A FROM with the table is a FROM\<close>

lemma match_here_lit:
  "match_here (map Lit w @ r) prev s =
     (startswith s w \<and> match_here r (if w = [] then prev else Some (last w)) (drop (length w) s))"
proof (induction w arbitrary: prev s)
  case Nil
  show ?case by simp
next
  case (Cons c w)
  show ?case
  proof (cases s)
    case Nil
    thus ?thesis by simp
  next
    case (Cons x xs)
    thus ?thesis using Cons.IH [of "Some x" xs] by auto
  qed
qed

lemma match_here_from_table:
  assumes "match_here (kw2 ''from'' ''tablename'') prev s"
  shows "match_here (kw ''from'') prev s"
proof -
  let ?t = "drop (length ''from'') s"
  from assms have b: "word_boundary prev s"
    by (simp add: kw2_def split: if_splits)
  with assms have "match_here (map Lit ''from'' @ Spaces # lit ''tablename'' @ [WordB]) prev s"
    by (simp add: kw2_def lit_def)
  hence f: "startswith s ''from''"
    and m: "match_here (Spaces # lit ''tablename'' @ [WordB]) (Some (CHR ''m'')) ?t"
    by (simp_all only: match_here_lit) simp_all
  from m obtain x xs where t: "?t = x # xs" and x: "isspace x"
    by (cases ?t) (auto split: if_splits)
  from x have "\<not> is_word x" by (rule isspace_not_word)
  hence "word_boundary (Some (CHR ''m'')) ?t"
    using t by (simp add: word_boundary_def is_word_lits)
  hence "match_here [WordB] (Some (CHR ''m'')) ?t" by simp
  with f have "match_here (map Lit ''from'' @ [WordB]) prev s"
    by (simp only: match_here_lit) simp
  with b show ?thesis by (simp add: kw_def lit_def)
qed

lemma search_from_from_table:
  "search_from (kw2 ''from'' ''tablename'') prev s \<Longrightarrow> search_from (kw ''from'') prev s"
proof (induction s arbitrary: prev)
  case Nil
  thus ?case using match_here_from_table by simp
next
  case (Cons x s)
  thus ?case using match_here_from_table [of prev "x # s"] by (auto split: if_splits)
qed

lemma re_search_from_table:
  "re_search (kw2 ''from'' ''tablename'') s \<Longrightarrow> re_search (kw ''from'') s"
  unfolding re_search_def by (rule search_from_from_table)

subsection \<open>Validated statements\<close>

lemma trail_safe_patterns:
  "p \<in> set FORBIDDEN_PATTERNS \<Longrightarrow> trail_safe p"
  "trail_safe (kw ''join'')" "trail_safe (kw ''from'')" "trail_safe (kw2 ''from'' ''tablename'')"
  "trail_safe (kw ''limit'')" "trail_safe update_pat" "trail_safe delete_pat"
  "trail_safe insert_pat"
  using all_patterns_trail_safe by (simp_all add: all_patterns_def list_all_iff)

lemma lstrip_lower: "lstrip (lower s) = lower (lstrip s)"
  by (induction s) (simp_all add: lstrip_def lower_def)

lemma passes_checks_trail:
  assumes p: "passes_checks (l @ ws)" and ws: "list_all isspace ws"
  shows "passes_checks l"
proof -
  have v: "startswith_any (lstrip l) allowed_verbs"
  proof (cases "list_all isspace l")
    case True
    with ws have "lstrip (l @ ws) = []"
      by (simp add: lstrip_def dropWhile_eq_Nil_conv list_all_iff)
    with p show ?thesis
      by (simp add: passes_checks_def startswith_any_def allowed_verbs_def)
  next
    case False
    hence "lstrip (l @ ws) = lstrip l @ ws"
      by (auto simp: lstrip_def list_all_iff)
    moreover from p have "startswith_any (lstrip (l @ ws)) allowed_verbs"
      by (simp add: passes_checks_def)
    ultimately show ?thesis
      using startswith_trail [OF ws, of _ "lstrip l"]
      by (simp add: startswith_any_def allowed_verbs_def isspace_lits)
  qed
  have f: "\<not> list_ex (\<lambda>pattern. re_search pattern l) FORBIDDEN_PATTERNS"
  proof
    assume "list_ex (\<lambda>pattern. re_search pattern l) FORBIDDEN_PATTERNS"
    then obtain q where q: "q \<in> set FORBIDDEN_PATTERNS" "re_search q l"
      by (auto simp: list_ex_iff)
    hence "re_search q (l @ ws)"
      using re_search_trail [OF trail_safe_patterns(1) ws] by simp
    with q(1) p show False by (auto simp: passes_checks_def list_ex_iff)
  qed
  from p have "\<not> contains '';'' l" "\<not> contains ''/etc/'' l" "\<not> contains ''..'' l"
    unfolding passes_checks_def using contains_mono by blast+
  moreover from p have "\<not> re_search (kw ''join'') l"
    "re_search (kw ''from'') l \<longrightarrow> re_search (kw2 ''from'' ''tablename'') l"
    unfolding passes_checks_def
    by (simp_all add: re_search_trail [OF _ ws] trail_safe_patterns)
  moreover from p have "startswith l ''update '' \<longrightarrow> re_match update_pat l"
    "startswith l ''delete '' \<longrightarrow> re_match delete_pat l"
    "startswith l ''insert '' \<longrightarrow> re_match insert_pat l"
    unfolding passes_checks_def
    using startswith_mono [of l _ ws]
    by (auto simp: re_match_trail [OF _ ws] trail_safe_patterns)
  ultimately show ?thesis using v f by (simp add: passes_checks_def)
qed

lemma hd_butlast_eq: "butlast xs \<noteq> [] \<Longrightarrow> hd (butlast xs) = hd xs"
  by (cases xs) (auto split: if_splits)

lemma validated_nonempty:
  assumes "validate_sql sql = Inr v"
  shows "v \<noteq> []"
proof
  assume "v = []"
  moreover from assms have "passes_checks (lower v)" using validate_sql_Inr_iff by blast
  ultimately show False
    by (simp add: passes_checks_def lstrip_def startswith_any_def allowed_verbs_def)
qed

lemma validated_hd:
  assumes "validate_sql sql = Inr v"
  shows "\<not> isspace (hd v)"
proof -
  from assms have s: "strip sql \<noteq> []" and v: "v = strip_terminator sql"
    using validate_sql_Inr_iff by blast+
  have "hd v = hd (strip sql)"
    using validated_nonempty [OF assms] v
    by (auto simp: strip_terminator_def Let_def hd_butlast_eq split: if_splits)
  with strip_hd [OF s] show ?thesis by simp
qed

lemma validated_decomp:
  assumes "validate_sql sql = Inr v"
  shows "\<exists>ws. v = strip v @ ws \<and> list_all isspace ws"
proof -
  have "lstrip v = v" using validated_hd [OF assms] by (simp add: lstrip_id)
  thus ?thesis using rstrip_decomp [of v] by (simp add: strip_def)
qed

lemma validated_strip_hd:
  assumes "validate_sql sql = Inr v"
  shows "strip v \<noteq> []" "\<not> isspace (hd (strip v))" "CHR '';'' \<notin> set (strip v)"
    "last (strip v) \<noteq> CHR '';''"
proof -
  have "\<not> list_all isspace v"
    using validated_nonempty [OF assms] validated_hd [OF assms]
    by (cases v) simp_all
  thus n: "strip v \<noteq> []" by (simp add: strip_eq_Nil)
  thus "\<not> isspace (hd (strip v))" by (rule strip_hd)
  from assms have "passes_checks (lower v)" using validate_sql_Inr_iff by blast
  hence "CHR '';'' \<notin> set v" by (simp add: passes_checks_def)
  moreover from validated_decomp [OF assms] have "set (strip v) \<subseteq> set v"
    by (metis set_append sup_ge1)
  ultimately show m: "CHR '';'' \<notin> set (strip v)" by blast
  from n m show "last (strip v) \<noteq> CHR '';''" by (metis last_in_set)
qed

lemma validated_lower_strip:
  assumes "validate_sql sql = Inr v"
  shows "passes_checks (lower (strip v))"
    and "\<forall>c\<in>set w. \<not> isspace c \<Longrightarrow> startswith (lower (strip v)) w = startswith (lower v) w"
    and "trail_safe r \<Longrightarrow> re_search r (lower (strip v)) = re_search r (lower v)"
proof -
  from validated_decomp [OF assms] obtain ws where
    ws: "v = strip v @ ws" "list_all isspace ws" by blast
  hence l: "lower v = lower (strip v) @ lower ws" "list_all isspace (lower ws)"
    by (metis lower_append, simp)
  from assms have "passes_checks (lower v)" using validate_sql_Inr_iff by blast
  with l show "passes_checks (lower (strip v))"
    using passes_checks_trail by metis
  show "startswith (lower (strip v)) w = startswith (lower v) w" if "\<forall>c\<in>set w. \<not> isspace c"
    using startswith_trail [OF l(2) that, of "lower (strip v)"] l(1) by simp
  show "re_search r (lower (strip v)) = re_search r (lower v)" if "trail_safe r"
    using re_search_trail [OF that l(2), of "lower (strip v)"] l(1) by simp
qed

lemma validate_sql_strip:
  assumes "validate_sql sql = Inr v"
  shows "validate_sql (strip v) = Inr (strip v)"
proof -
  note h = validated_strip_hd [OF assms]
  have "\<not> endswith (strip v) '';''"
    using h(4) by (simp add: endswith_single)
  hence "strip_terminator (strip v) = strip v"
    by (simp add: strip_terminator_def)
  with h(1) validated_lower_strip(1) [OF assms] show ?thesis
    by (simp add: validate_sql_Inr_iff)
qed

lemma limiter_cleaned:
  assumes "validate_sql sql = Inr v"
  shows "rstrip_chars (strip v) '';'' = strip v"
    and "lstrip (lower (strip v)) = lower (strip v)"
proof -
  note h = validated_strip_hd [OF assms]
  from h(4) show "rstrip_chars (strip v) '';'' = strip v"
    by (intro rstrip_chars_id) simp
  have "lstrip (strip v) = strip v" using h(2) by (simp add: lstrip_id)
  thus "lstrip (lower (strip v)) = lower (strip v)" by (simp add: lstrip_lower)
qed

lemma limiter_validated:
  assumes "validate_sql sql = Inr v"
  shows "limiter v =
     (if \<not> startswith (lower v) ''select'' then strip v
      else if re_search (kw ''limit'') (lower v) then strip v
      else wrapped (strip v))"
proof -
  have "startswith (lower (strip v)) ''select'' = startswith (lower v) ''select''"
    by (rule validated_lower_strip(2) [OF assms]) (simp add: isspace_lits)
  moreover have "re_search (kw ''limit'') (lower (strip v)) = re_search (kw ''limit'') (lower v)"
    by (rule validated_lower_strip(3) [OF assms]) (rule trail_safe_patterns)
  ultimately show ?thesis
    by (simp add: limiter_def wrap_query_with_limit_def limiter_cleaned [OF assms] str_int_1000
        wrapped_def)
qed

subsection \<open>The text the Limiter builds\<close>

lemma wrapped_lower_split:
  "wrapped_lower l
     = ''select * from '' @ CHR ''('' # (l @ CHR '')'' # '' as subquery limit 1000'')"
  by (simp add: wrapped_lower_def)

lemma lower_wrapped: "lower (wrapped c) = wrapped_lower (lower c)"
  by (simp add: wrapped_def wrapped_lower_def lower_def lower_char_lits)

lemma wrapped_ends:
  "wrapped c \<noteq> []" "hd (wrapped c) = CHR ''S''" "last (wrapped c) = CHR ''0''"
  by (simp_all add: wrapped_def)

lemma strip_wrapped: "strip (wrapped c) = wrapped c"
  by (rule strip_id) (simp add: wrapped_ends isspace_lits)

lemma strip_terminator_wrapped: "strip_terminator (wrapped c) = wrapped c"
  by (simp add: strip_terminator_def strip_wrapped endswith_single wrapped_ends)

lemma wrap_inert_patterns:
  "list_all wrap_inert (FORBIDDEN_PATTERNS @ [kw ''join'', kw2 ''from'' ''tablename''])"
  by (simp only: wrap_inert_def ev cong: if_weak_cong)

lemma paren_chars:
  "\<not> isspace (CHR ''('')" "\<not> is_word (CHR ''('')" "\<not> isspace (CHR '')'')" "\<not> is_word (CHR '')'')"
  by (simp_all add: isspace_lits is_word_lits)

lemma re_search_wrapped:
  assumes "wrap_inert r"
  shows "re_search r (wrapped_lower l) = re_search r l"
proof -
  from assms have a: "Lit (CHR ''('') \<notin> set r" and b: "Lit (CHR '')'') \<notin> set r"
    and c: "\<not> re_search r ''select * from ''" and d: "\<not> re_search r '' as subquery limit 1000''"
    by (simp_all add: wrap_inert_def split: if_splits)
  have "re_search r (wrapped_lower l)
          = (re_search r ''select * from '' \<or> re_search r (l @ CHR '')'' # '' as subquery limit 1000''))"
    unfolding wrapped_lower_split by (rule re_search_sep [OF a paren_chars(1,2)])
  moreover have "re_search r (l @ CHR '')'' # '' as subquery limit 1000'')
          = (re_search r l \<or> re_search r '' as subquery limit 1000'')"
    by (rule re_search_sep [OF b paren_chars(3,4)])
  ultimately show ?thesis using c d by blast
qed

lemma re_count_limit_wrapped:
  "re_count (kw ''limit'') (wrapped_lower l) = re_count (kw ''limit'') l + 1"
proof -
  have a: "Lit (CHR ''('') \<notin> set (kw ''limit'')" and b: "Lit (CHR '')'') \<notin> set (kw ''limit'')"
    by (simp_all add: kw_def lit_def)
  have c: "re_count (kw ''limit'') ''select * from '' = 0"
    unfolding re_count_zero by (simp only: ev cong: if_weak_cong)
  have d: "re_count (kw ''limit'') '' as subquery limit 1000'' = 1"
    by (simp only: ev cong: if_weak_cong; simp)
  have "re_count (kw ''limit'') (wrapped_lower l)
          = re_count (kw ''limit'') ''select * from ''
            + re_count (kw ''limit'') (l @ CHR '')'' # '' as subquery limit 1000'')"
    unfolding wrapped_lower_split by (rule re_count_sep [OF a paren_chars(1,2)])
  moreover have "re_count (kw ''limit'') (l @ CHR '')'' # '' as subquery limit 1000'')
          = re_count (kw ''limit'') l + re_count (kw ''limit'') '' as subquery limit 1000''"
    by (rule re_count_sep [OF b paren_chars(3,4)])
  ultimately show ?thesis using c d by simp
qed

lemma re_search_limit_wrapped: "re_search (kw ''limit'') (wrapped_lower l)"
proof -
  have "re_count (kw ''limit'') (wrapped_lower l) \<noteq> 0"
    by (simp add: re_count_limit_wrapped)
  thus ?thesis by (simp add: re_count_zero)
qed

lemma contains_wrapped:
  assumes "CHR ''('' \<notin> set sub" "CHR '')'' \<notin> set sub"
    "\<not> contains sub ''select * from ''" "\<not> contains sub '' as subquery limit 1000''"
  shows "contains sub (wrapped_lower l) = contains sub l"
  using assms(3,4)
  by (simp only: wrapped_lower_split contains_sep [OF assms(1)] contains_sep [OF assms(2)]) simp

lemma passes_checks_wrapped:
  assumes "passes_checks l"
  shows "passes_checks (wrapped_lower l) = re_search (kw ''from'') l"
proof -
  let ?w = "wrapped_lower l"
  note i = wrap_inert_patterns [unfolded list_all_iff]
  have 1: "contains '';'' ?w = contains '';'' l"
    by (rule contains_wrapped) (simp_all only: ev cong: if_weak_cong)
  have 2: "startswith_any (lstrip ?w) allowed_verbs"
    by (simp add: wrapped_lower_def lstrip_def isspace_lits startswith_any_def allowed_verbs_def)
  have 3: "contains ''/etc/'' ?w = contains ''/etc/'' l"
    by (rule contains_wrapped) (simp_all only: ev cong: if_weak_cong)
  have 4: "contains ''..'' ?w = contains ''..'' l"
    by (rule contains_wrapped) (simp_all only: ev cong: if_weak_cong)
  have "\<And>p. p \<in> set FORBIDDEN_PATTERNS \<Longrightarrow> re_search p ?w = re_search p l"
    using i by (intro re_search_wrapped) simp
  hence 5: "list_ex (\<lambda>pattern. re_search pattern ?w) FORBIDDEN_PATTERNS
             = list_ex (\<lambda>pattern. re_search pattern l) FORBIDDEN_PATTERNS"
    unfolding list_ex_iff by blast
  have 6: "re_search (kw ''join'') ?w = re_search (kw ''join'') l"
    using i by (intro re_search_wrapped) simp
  have 7: "re_search (kw2 ''from'' ''tablename'') ?w = re_search (kw2 ''from'' ''tablename'') l"
    using i by (intro re_search_wrapped) simp
  have a: "Lit (CHR ''('') \<notin> set (kw ''from'')" by (simp add: kw_def lit_def)
  have "re_search (kw ''from'') ''select * from ''"
    by (simp only: ev cong: if_weak_cong)
  hence 8: "re_search (kw ''from'') ?w"
    unfolding wrapped_lower_split re_search_sep [OF a paren_chars(1,2)] by blast
  have 9: "\<not> startswith ?w ''update ''" "\<not> startswith ?w ''delete ''" "\<not> startswith ?w ''insert ''"
    by (simp_all add: wrapped_lower_def)
  from assms have 10: "re_search (kw2 ''from'' ''tablename'') l = re_search (kw ''from'') l"
    using re_search_from_table [of l] by (auto simp: passes_checks_def)
  from assms have "\<not> contains '';'' l" "\<not> contains ''/etc/'' l" "\<not> contains ''..'' l"
    "\<not> list_ex (\<lambda>pattern. re_search pattern l) FORBIDDEN_PATTERNS"
    "\<not> re_search (kw ''join'') l"
    by (simp_all add: passes_checks_def)
  thus ?thesis
    unfolding passes_checks_def [of ?w] 1 3 4 5 6 7 10
    using 2 8 9 by blast
qed

lemma validate_sql_wrapped:
  assumes "validate_sql sql = Inr v"
  shows "(validate_sql (wrapped (strip v)) = Inr w)
           = (w = wrapped (strip v) \<and> re_search (kw ''from'') (lower v))"
proof -
  have "re_search (kw ''from'') (lower (strip v)) = re_search (kw ''from'') (lower v)"
    by (rule validated_lower_strip(3) [OF assms]) (rule trail_safe_patterns)
  with passes_checks_wrapped [OF validated_lower_strip(1) [OF assms]]
  have "passes_checks (lower (wrapped (strip v))) = re_search (kw ''from'') (lower v)"
    by (simp only: lower_wrapped)
  moreover have "strip (wrapped (strip v)) \<noteq> []"
    by (simp only: strip_wrapped wrapped_ends) simp
  ultimately show ?thesis
    unfolding validate_sql_Inr_iff [of "wrapped (strip v)" w] strip_terminator_wrapped
    by blast
qed

lemma limiter_wrapped: "limiter (wrapped c) = wrapped c"
proof -
  have 1: "rstrip_chars (wrapped c) '';'' = wrapped c"
    by (rule rstrip_chars_id) (simp add: wrapped_ends)
  have 2: "lstrip (wrapped_lower (lower c)) = wrapped_lower (lower c)"
    by (rule lstrip_id) (simp add: wrapped_lower_def isspace_lits)
  have 3: "startswith (wrapped_lower (lower c)) ''select''"
    by (simp add: wrapped_lower_def)
  show ?thesis
    unfolding limiter_def wrap_query_with_limit_def
    by (simp only: strip_wrapped 1 lower_wrapped 2 3 re_search_limit_wrapped Let_def) simp
qed

subsection \<open>Evaluated examples\<close>

lemma ex_select_all:
  "validate_sql ''SELECT * FROM tablename'' = Inr ''SELECT * FROM tablename''"
  by (simp only: ev cong: if_weak_cong)

lemma ex_select_mixed:
  "validate_sql ''  Select * From tablename; '' = Inr ''Select * From tablename''"
  by (simp only: ev cong: if_weak_cong)

lemma ex_other_table: "validate_sql ''SELECT * FROM other_table'' = Inl err_table"
  by (simp only: ev cong: if_weak_cong)

lemma first_failure_SomeD:
  "first_failure cs x = Some e \<Longrightarrow> \<exists>i<length cs. snd (cs ! i) = e \<and> fst (cs ! i) x"
proof (induction cs)
  case Nil
  thus ?case by simp
next
  case (Cons c cs)
  obtain f e' where c: "c = (f, e')" by (cases c)
  show ?case
  proof (cases "f x")
    case True
    with Cons.prems c have "e' = e" by simp
    with True c show ?thesis by (intro exI [of _ 0]) simp
  next
    case False
    with Cons.prems c have "first_failure cs x = Some e" by simp
    from Cons.IH [OF this] obtain i where "i < length cs" "snd (cs ! i) = e" "fst (cs ! i) x"
      by blast
    thus ?thesis by (intro exI [of _ "Suc i"]) simp
  qed
qed

lemma validator_checks_status: "list_all (\<lambda>c. status_code (snd c) = 400) validator_checks"
  by (simp add: validator_checks_def err_empty_def err_multiple_def err_verb_def
      err_filesystem_def err_forbidden_def err_join_def err_table_def err_update_def
      err_delete_def err_insert_def)

lemma validator_checks_distinct: "distinct (map (\<lambda>c. detail (snd c)) validator_checks)"
  by (simp add: validator_checks_def err_empty_def err_multiple_def err_verb_def
      err_filesystem_def err_forbidden_def err_join_def err_table_def err_update_def
      err_delete_def err_insert_def)

lemma semicolon_rejected:
  assumes "CHR '';'' \<in> set (strip_terminator sql)"
  shows "validate_sql sql = Inl err_multiple"
proof -
  from assms have "strip_terminator sql \<noteq> []" by auto
  hence "strip sql \<noteq> []" by (auto simp: strip_terminator_def Let_def split: if_splits)
  hence "sql \<noteq> []" by auto
  with \<open>strip sql \<noteq> []\<close> assms show ?thesis
    by (simp add: validate_sql_def Let_def)
qed

lemma ex_select_1: "validate_sql ''SELECT 1'' = Inr ''SELECT 1''"
  by (simp only: ev cong: if_weak_cong)

lemma ex_wrapped_select_1:
  "validate_sql ''SELECT * FROM (SELECT 1) AS subquery LIMIT 1000'' = Inl err_table"
  by (simp only: ev cong: if_weak_cong)

lemma ex_select_limit:
  "validate_sql ''SELECT * FROM tablename LIMIT 5'' = Inr ''SELECT * FROM tablename LIMIT 5''"
  by (simp only: ev cong: if_weak_cong)

lemma ex_select_limit_terminated:
  "validate_sql ''SELECT * FROM tablename LIMIT 5 ;'' = Inr ''SELECT * FROM tablename LIMIT 5 ''"
  by (simp only: ev cong: if_weak_cong)

lemma ex_delete: "validate_sql ''DELETE FROM tablename'' = Inr ''DELETE FROM tablename''"
  by (simp only: ev cong: if_weak_cong)

lemma ex_delete_terminated:
  "validate_sql ''DELETE FROM tablename ;'' = Inr ''DELETE FROM tablename ''"
  by (simp only: ev cong: if_weak_cong)

lemma ex_limiter:
  "limiter ''SELECT 1'' = ''SELECT * FROM (SELECT 1) AS subquery LIMIT 1000''"
  "limiter ''SELECT * FROM tablename LIMIT 5 '' = ''SELECT * FROM tablename LIMIT 5''"
  "limiter ''DELETE FROM tablename '' = ''DELETE FROM tablename''"
  by (simp_all only: ev cong: if_weak_cong)

section \<open>The claims\<close>

text \<open>
  C1, as the code has it. The Limiter wraps its own \<open>cleaned\<close> text, not its argument: when
  whitespace preceded the terminator that the Validator removed, the validated text ends
  in whitespace and the text between the parentheses is that text without it.
\<close>

theorem limiter_wraps_counterexample:
  "validate_sql ''SELECT a FROM tablename ;'' = Inr ''SELECT a FROM tablename ''
   \<and> startswith (lower ''SELECT a FROM tablename '') ''select''
   \<and> \<not> re_search (kw ''limit'') (lower ''SELECT a FROM tablename '')
   \<and> limiter ''SELECT a FROM tablename ''
        \<noteq> ''SELECT * FROM ('' @ ''SELECT a FROM tablename '' @ '') AS subquery LIMIT 1000''"
  by (simp only: ev cong: if_weak_cong; simp)

text \<open>
  C1, amended. For an accepted statement that begins with the verb select and whose folded
  text has no LIMIT keyword, the Limiter returns the text \<open>SELECT * FROM (\<close>, the statement
  with its trailing whitespace trimmed, \<open>) AS subquery LIMIT 1000\<close>. The wrapped text is the
  statement itself, character by character, whenever the trimmed input did not end in a
  terminator. The folded output has exactly one position where the LIMIT keyword matches.
  For \<open>SELECT * FROM tablename\<close> the output is
  \<open>SELECT * FROM (SELECT * FROM tablename) AS subquery LIMIT 1000\<close>.
\<close>

theorem limiter_wraps_select:
  assumes "validate_sql sql = Inr v"
    and "startswith (lower v) ''select''"
    and "\<not> re_search (kw ''limit'') (lower v)"
  shows "limiter v = ''SELECT * FROM ('' @ strip v @ '') AS subquery LIMIT 1000''
     \<and> rstrip_chars (strip v) '';'' = strip v
     \<and> (\<exists>ws. v = strip v @ ws \<and> list_all isspace ws)
     \<and> (\<not> endswith (strip sql) '';'' \<longrightarrow>
           limiter v = ''SELECT * FROM ('' @ v @ '') AS subquery LIMIT 1000'')
     \<and> re_count (kw ''limit'') (lower (limiter v)) = 1
     \<and> limiter ''SELECT * FROM tablename''
           = ''SELECT * FROM (SELECT * FROM tablename) AS subquery LIMIT 1000''"
proof -
  from assms have l: "limiter v = wrapped (strip v)"
    by (simp add: limiter_validated)
  have "\<not> re_search (kw ''limit'') (lower (strip v))"
    using assms(3) validated_lower_strip(3) [OF assms(1) trail_safe_patterns(5)] by simp
  hence "re_count (kw ''limit'') (lower (strip v)) = 0"
    by (simp add: re_count_zero)
  hence c: "re_count (kw ''limit'') (lower (limiter v)) = 1"
    by (simp add: l lower_wrapped re_count_limit_wrapped)
  have e: "limiter ''SELECT * FROM tablename''
             = ''SELECT * FROM (SELECT * FROM tablename) AS subquery LIMIT 1000''"
    by (simp only: ev cong: if_weak_cong)
  have n: "limiter v = wrapped v" if "\<not> endswith (strip sql) '';''"
  proof -
    from assms(1) that have "v = strip sql"
      by (simp add: validate_sql_Inr_iff strip_terminator_def)
    hence "strip v = v" by simp
    with l show ?thesis by simp
  qed
  from l c e n limiter_cleaned(1) [OF assms(1)] validated_decomp [OF assms(1)]
  show ?thesis unfolding wrapped_def by blast
qed

theorem limiter_wraps_select_witness:
  "validate_sql ''SELECT * FROM tablename'' = Inr ''SELECT * FROM tablename''
   \<and> startswith (lower ''SELECT * FROM tablename'') ''select''
   \<and> \<not> re_search (kw ''limit'') (lower ''SELECT * FROM tablename'')
   \<and> \<not> endswith (strip ''SELECT * FROM tablename'') '';''
   \<and> limiter ''SELECT * FROM tablename''
        = ''SELECT * FROM ('' @ ''SELECT * FROM tablename'' @ '') AS subquery LIMIT 1000''
   \<and> re_count (kw ''limit'') (lower (limiter ''SELECT * FROM tablename'')) = 1"
proof -
  have a: "startswith (lower ''SELECT * FROM tablename'') ''select''"
    by (simp only: ev cong: if_weak_cong)
  have b: "\<not> re_search (kw ''limit'') (lower ''SELECT * FROM tablename'')"
    by (simp only: ev cong: if_weak_cong)
  have c: "\<not> endswith (strip ''SELECT * FROM tablename'') '';''"
    by (simp only: ev cong: if_weak_cong)
  from limiter_wraps_select [OF ex_select_all a b] ex_select_all a b c
  show ?thesis by blast
qed

text \<open>
  C2, as the code has it. The claim fails for a select statement without FROM:
  \<open>SELECT 1\<close> is accepted, the Limiter wraps it into a text with \<open>FROM (\<close>, and the
  Validator rejects that text for its table reference.
\<close>

theorem roundtrip_counterexample:
  "validate_sql ''SELECT 1'' = Inr ''SELECT 1''
   \<and> startswith (lower ''SELECT 1'') ''select''
   \<and> validate_sql (limiter ''SELECT 1'') = Inl err_table"
proof -
  have "startswith (lower ''SELECT 1'') ''select''"
    by (simp only: ev cong: if_weak_cong)
  thus ?thesis
    using ex_select_1 ex_wrapped_select_1 by (simp only: ex_limiter; simp)
qed

text \<open>
  C2, amended. For an accepted statement that begins with the verb select, the Validator
  accepts the Limiter's output exactly when the folded text of the statement contains a
  LIMIT keyword or a FROM keyword; the text it then returns is the Limiter's output.
\<close>

theorem roundtrip_iff:
  assumes "validate_sql sql = Inr v"
    and "startswith (lower v) ''select''"
  shows "(\<exists>w. validate_sql (limiter v) = Inr w)
           = (re_search (kw ''limit'') (lower v) \<or> re_search (kw ''from'') (lower v))
     \<and> (\<forall>w. validate_sql (limiter v) = Inr w \<longrightarrow> w = limiter v)"
proof (cases "re_search (kw ''limit'') (lower v)")
  case True
  with assms have "limiter v = strip v" by (simp add: limiter_validated)
  with validate_sql_strip [OF assms(1)] True show ?thesis by simp
next
  case False
  with assms have "limiter v = wrapped (strip v)" by (simp add: limiter_validated)
  with validate_sql_wrapped [OF assms(1)] False show ?thesis by simp
qed

theorem roundtrip_iff_witness:
  "validate_sql ''SELECT * FROM tablename'' = Inr ''SELECT * FROM tablename''
   \<and> startswith (lower ''SELECT * FROM tablename'') ''select''
   \<and> re_search (kw ''from'') (lower ''SELECT * FROM tablename'')
   \<and> (\<exists>w. validate_sql (limiter ''SELECT * FROM tablename'') = Inr w)"
proof -
  have a: "startswith (lower ''SELECT * FROM tablename'') ''select''"
    by (simp only: ev cong: if_weak_cong)
  have b: "re_search (kw ''from'') (lower ''SELECT * FROM tablename'')"
    by (simp only: ev cong: if_weak_cong)
  from roundtrip_iff [OF ex_select_all a] ex_select_all a b
  show ?thesis by blast
qed

text \<open>
  C3, as the code has it. The Limiter returns its \<open>cleaned\<close> text, not its argument: when
  whitespace preceded the terminator that the Validator removed, the validated text ends
  in whitespace and the Limiter trims it.
\<close>

theorem limiter_unchanged_counterexample:
  "validate_sql ''SELECT * FROM tablename LIMIT 5 ;'' = Inr ''SELECT * FROM tablename LIMIT 5 ''
   \<and> startswith (lower ''SELECT * FROM tablename LIMIT 5 '') ''select''
   \<and> re_search (kw ''limit'') (lower ''SELECT * FROM tablename LIMIT 5 '')
   \<and> limiter ''SELECT * FROM tablename LIMIT 5 '' \<noteq> ''SELECT * FROM tablename LIMIT 5 ''"
proof -
  have "startswith (lower ''SELECT * FROM tablename LIMIT 5 '') ''select''"
    by (simp only: ev cong: if_weak_cong)
  moreover have "re_search (kw ''limit'') (lower ''SELECT * FROM tablename LIMIT 5 '')"
    by (simp only: ev cong: if_weak_cong)
  ultimately show ?thesis
    using ex_select_limit_terminated by (simp only: ex_limiter; simp)
qed

text \<open>
  C3, amended. For an accepted select statement whose folded text contains a LIMIT
  keyword the Limiter returns the statement with its trailing whitespace trimmed, which is
  the statement itself whenever the trimmed input did not end in a terminator. On every
  validated statement the Limiter is idempotent.
\<close>

theorem limiter_keeps_limit:
  assumes "validate_sql sql = Inr v"
  shows "(startswith (lower v) ''select'' \<and> re_search (kw ''limit'') (lower v) \<longrightarrow>
            limiter v = strip v \<and> (\<not> endswith (strip sql) '';'' \<longrightarrow> limiter v = v))
     \<and> (\<exists>ws. v = strip v @ ws \<and> list_all isspace ws)
     \<and> limiter (limiter v) = limiter v"
proof -
  have 1: "limiter v = v" if "limiter v = strip v" "\<not> endswith (strip sql) '';''"
  proof -
    from assms that(2) have "v = strip sql"
      by (simp add: validate_sql_Inr_iff strip_terminator_def)
    hence "strip v = v" by simp
    with that(1) show ?thesis by simp
  qed
  have 2: "limiter (limiter v) = limiter v"
  proof (cases "limiter v = strip v")
    case True
    have "limiter (strip v) = strip v"
      using limiter_validated [OF validate_sql_strip [OF assms]]
        limiter_validated [OF assms] True
        validated_lower_strip(2) [OF assms, of "''select''"]
        validated_lower_strip(3) [OF assms trail_safe_patterns(5)]
      by (simp add: isspace_lits split: if_splits)
    with True show ?thesis by simp
  next
    case False
    hence "limiter v = wrapped (strip v)"
      using limiter_validated [OF assms] by (simp split: if_splits)
    thus ?thesis by (simp add: limiter_wrapped)
  qed
  from 1 2 validated_decomp [OF assms] limiter_validated [OF assms]
  show ?thesis by auto
qed

theorem limiter_keeps_limit_witness:
  "validate_sql ''SELECT * FROM tablename LIMIT 5'' = Inr ''SELECT * FROM tablename LIMIT 5''
   \<and> startswith (lower ''SELECT * FROM tablename LIMIT 5'') ''select''
   \<and> re_search (kw ''limit'') (lower ''SELECT * FROM tablename LIMIT 5'')
   \<and> \<not> endswith (strip ''SELECT * FROM tablename LIMIT 5'') '';''
   \<and> limiter ''SELECT * FROM tablename LIMIT 5'' = ''SELECT * FROM tablename LIMIT 5''
   \<and> limiter (limiter ''SELECT * FROM tablename LIMIT 5'') = limiter ''SELECT * FROM tablename LIMIT 5''"
proof -
  have a: "startswith (lower ''SELECT * FROM tablename LIMIT 5'') ''select''"
    by (simp only: ev cong: if_weak_cong)
  have b: "re_search (kw ''limit'') (lower ''SELECT * FROM tablename LIMIT 5'')"
    by (simp only: ev cong: if_weak_cong)
  have c: "\<not> endswith (strip ''SELECT * FROM tablename LIMIT 5'') '';''"
    by (simp only: ev cong: if_weak_cong)
  from limiter_keeps_limit [OF ex_select_limit] ex_select_limit a b c
  show ?thesis by blast
qed

text \<open>
  C4, as the code has it. A validated write statement that ends in whitespace is returned
  without that whitespace.
\<close>

theorem limiter_write_counterexample:
  "validate_sql ''DELETE FROM tablename ;'' = Inr ''DELETE FROM tablename ''
   \<and> \<not> startswith (lower ''DELETE FROM tablename '') ''select''
   \<and> limiter ''DELETE FROM tablename '' \<noteq> ''DELETE FROM tablename ''"
proof -
  have "\<not> startswith (lower ''DELETE FROM tablename '') ''select''"
    by (simp only: ev cong: if_weak_cong)
  thus ?thesis
    using ex_delete_terminated by (simp only: ex_limiter; simp)
qed

text \<open>
  C4, amended. For a validated statement that does not begin with the verb select the
  Limiter returns the statement with its trailing whitespace trimmed, which is the
  statement itself whenever the trimmed input did not end in a terminator. Nothing is
  appended: the statement is the output followed by whitespace only, and the folded output
  contains a LIMIT keyword only if the folded statement does.
\<close>

theorem limiter_leaves_write:
  assumes "validate_sql sql = Inr v"
    and "\<not> startswith (lower v) ''select''"
  shows "limiter v = strip v
     \<and> (\<exists>ws. v = limiter v @ ws \<and> list_all isspace ws)
     \<and> (\<not> endswith (strip sql) '';'' \<longrightarrow> limiter v = v)
     \<and> re_search (kw ''limit'') (lower (limiter v)) = re_search (kw ''limit'') (lower v)"
proof -
  from assms have l: "limiter v = strip v" by (simp add: limiter_validated)
  have "limiter v = v" if "\<not> endswith (strip sql) '';''"
  proof -
    from assms(1) that have "v = strip sql"
      by (simp add: validate_sql_Inr_iff strip_terminator_def)
    hence "strip v = v" by simp
    with l show ?thesis by simp
  qed
  with l validated_decomp [OF assms(1)]
    validated_lower_strip(3) [OF assms(1) trail_safe_patterns(5)]
  show ?thesis by simp
qed

theorem limiter_leaves_write_witness:
  "validate_sql ''DELETE FROM tablename'' = Inr ''DELETE FROM tablename''
   \<and> \<not> startswith (lower ''DELETE FROM tablename'') ''select''
   \<and> \<not> endswith (strip ''DELETE FROM tablename'') '';''
   \<and> limiter ''DELETE FROM tablename'' = ''DELETE FROM tablename''"
proof -
  have a: "\<not> startswith (lower ''DELETE FROM tablename'') ''select''"
    by (simp only: ev cong: if_weak_cong)
  have c: "\<not> endswith (strip ''DELETE FROM tablename'') '';''"
    by (simp only: ev cong: if_weak_cong)
  from limiter_leaves_write [OF ex_delete a] ex_delete a c
  show ?thesis by blast
qed

text \<open>
  C5. The code accepts a statement in which a FROM keyword is followed by another table,
  as long as some FROM keyword in the text is followed by \<open>tablename\<close>: line 208 searches
  for one occurrence of \<open>from tablename\<close> anywhere.
\<close>

theorem validate_sql_accepts_other_from:
  "re_search (kw2 ''from'' ''other_table'')
      (folded ''SELECT * FROM other_table UNION SELECT * FROM tablename'')
   \<and> validate_sql ''SELECT * FROM other_table UNION SELECT * FROM tablename''
        = Inr ''SELECT * FROM other_table UNION SELECT * FROM tablename''"
  by (simp only: ev cong: if_weak_cong)

text \<open>
  C6. The code accepts an update statement on another table when the verb is followed by
  a tab instead of a space: the guard of line 215 asks for \<open>update\<close> and one space, while
  the pattern it guards allows any whitespace, so the binding check is skipped. The same
  statement with a space is rejected with the reason of the verb.
\<close>

theorem validate_sql_accepts_update_tab:
  "startswith (folded (''UPDATE'' @ [CHR 0x09] @ ''other_table SET x=1'')) ''update''
   \<and> \<not> re_match update_pat (folded (''UPDATE'' @ [CHR 0x09] @ ''other_table SET x=1''))
   \<and> validate_sql (''UPDATE'' @ [CHR 0x09] @ ''other_table SET x=1'')
        = Inr (''UPDATE'' @ [CHR 0x09] @ ''other_table SET x=1'')
   \<and> validate_sql ''UPDATE other_table SET x=1'' = Inl err_update"
  by (simp only: ev cong: if_weak_cong)

text \<open>
  C7. The checks are applied in the order empty, separator, verb, filesystem, forbidden
  construct, JOIN, FROM table, verb-specific binding, and the rejection is that of the
  first failing check: the Validator is the first-failure evaluation of the ordered list
  \<open>validator_checks\<close>. In particular a text that still contains a semicolon after the
  removal of one trailing terminator is rejected for multiple statements, whatever the
  later checks would say.
\<close>

theorem validate_sql_first_failure:
  "validate_sql sql = spec_validate sql
   \<and> (CHR '';'' \<in> set (strip_terminator sql) \<longrightarrow> validate_sql sql = Inl err_multiple)"
  using validate_sql_spec semicolon_rejected by blast

theorem validate_sql_first_failure_witness:
  "CHR '';'' \<in> set (strip_terminator ''UPDATE tablename SET x=1; DELETE FROM tablename'')
   \<and> validate_sql ''UPDATE tablename SET x=1; DELETE FROM tablename'' = Inl err_multiple
   \<and> spec_validate ''UPDATE tablename SET x=1; DELETE FROM tablename'' = Inl err_multiple"
proof -
  have h: "CHR '';'' \<in> set (strip_terminator ''UPDATE tablename SET x=1; DELETE FROM tablename'')"
    by (simp only: ev cong: if_weak_cong)
  from validate_sql_first_failure [of "''UPDATE tablename SET x=1; DELETE FROM tablename''"] h
  show ?thesis by metis
qed

text \<open>
  C8. An input that is empty or consists of whitespace only is rejected as empty. Every
  rejection carries the status 400, and its reason string is the reason of exactly one
  check of the rule chain, a check that the input fails.
\<close>

theorem validate_sql_rejections:
  "(list_all isspace sql \<longrightarrow> validate_sql sql = Inl err_empty)
   \<and> (validate_sql sql = Inl e \<longrightarrow>
        status_code e = 400
        \<and> (\<exists>i<length validator_checks.
              snd (validator_checks ! i) = e \<and> fst (validator_checks ! i) sql
              \<and> (\<forall>j<length validator_checks.
                    detail (snd (validator_checks ! j)) = detail e \<longrightarrow> j = i)))"
proof (intro conjI impI)
  assume "list_all isspace sql"
  hence "strip sql = []" by (simp add: strip_eq_Nil)
  thus "validate_sql sql = Inl err_empty" by (simp add: validate_sql_def)
next
  assume r: "validate_sql sql = Inl e"
  hence "first_failure validator_checks sql = Some e"
    by (simp add: validate_sql_spec spec_validate_def split: option.splits)
  from first_failure_SomeD [OF this] obtain i where
    i: "i < length validator_checks" "snd (validator_checks ! i) = e"
       "fst (validator_checks ! i) sql" by blast
  from validator_checks_status i(1) have "status_code (snd (validator_checks ! i)) = 400"
    by (simp add: list_all_length)
  with i(2) show "status_code e = 400" by simp
  have "\<forall>j<length validator_checks. detail (snd (validator_checks ! j)) = detail e \<longrightarrow> j = i"
  proof (intro allI impI)
    fix j
    assume j: "j < length validator_checks"
      and d: "detail (snd (validator_checks ! j)) = detail e"
    let ?ds = "map (\<lambda>c. detail (snd c)) validator_checks"
    from j i(1) d i(2) have "?ds ! j = ?ds ! i" by simp
    moreover from j i(1) have "j < length ?ds" "i < length ?ds" by simp_all
    ultimately show "j = i"
      using validator_checks_distinct nth_eq_iff_index_eq by blast
  qed
  with i show "\<exists>i<length validator_checks.
      snd (validator_checks ! i) = e \<and> fst (validator_checks ! i) sql
      \<and> (\<forall>j<length validator_checks. detail (snd (validator_checks ! j)) = detail e \<longrightarrow> j = i)"
    by blast
qed

theorem validate_sql_rejections_witness:
  "list_all isspace ''  '' \<and> validate_sql ''  '' = Inl err_empty
   \<and> validate_sql ''SELECT * FROM other_table'' = Inl err_table
   \<and> status_code err_table = 400
   \<and> (\<exists>i<length validator_checks.
         snd (validator_checks ! i) = err_table
         \<and> fst (validator_checks ! i) ''SELECT * FROM other_table''
         \<and> (\<forall>j<length validator_checks.
               detail (snd (validator_checks ! j)) = detail err_table \<longrightarrow> j = i))"
proof -
  have h: "list_all isspace ''  ''"
    by (simp only: ev)
  from validate_sql_rejections [of "''  ''" err_empty] h
  have "validate_sql ''  '' = Inl err_empty" by blast
  with h validate_sql_rejections [of "''SELECT * FROM other_table''" err_table] ex_other_table
  show ?thesis by blast
qed

text \<open>
  C9. Whenever the Validator accepts, the text it returns is the input with the
  surrounding whitespace trimmed and at most one trailing terminator removed: either the
  trimmed input itself, or the trimmed input without its final semicolon. The characters
  are those of the input, in their original case; the folded copy is never returned.
\<close>

theorem validate_sql_returns_cleaned:
  assumes "validate_sql sql = Inr v"
  shows "v = strip_terminator sql \<and> (v = strip sql \<or> strip sql = v @ '';'')"
proof -
  from assms have v: "v = strip_terminator sql"
    using validate_sql_Inr_iff by blast
  show ?thesis
  proof (cases "endswith (strip sql) '';''")
    case True
    hence "strip sql \<noteq> []" "last (strip sql) = CHR '';''"
      by (simp_all add: endswith_single)
    hence "strip sql = butlast (strip sql) @ '';''"
      by (metis append_butlast_last_id)
    with True v show ?thesis by (simp add: strip_terminator_def)
  next
    case False
    with v show ?thesis by (simp add: strip_terminator_def)
  qed
qed

theorem validate_sql_returns_cleaned_witness:
  "validate_sql ''  Select * From tablename; '' = Inr ''Select * From tablename''
   \<and> ''Select * From tablename'' = strip_terminator ''  Select * From tablename; ''
   \<and> (''Select * From tablename'' = strip ''  Select * From tablename; ''
        \<or> strip ''  Select * From tablename; '' = ''Select * From tablename'' @ '';'')"
  using validate_sql_returns_cleaned [OF ex_select_mixed] ex_select_mixed by blast

text \<open>
  C10. Whenever the Validator accepts, the returned text contains no semicolon at any
  position.
\<close>

theorem validate_sql_no_semicolon:
  assumes "validate_sql sql = Inr v"
  shows "CHR '';'' \<notin> set v"
proof -
  from assms have "passes_checks (lower v)" using validate_sql_Inr_iff by blast
  hence "\<not> contains '';'' (lower v)" by (simp add: passes_checks_def)
  thus ?thesis by simp
qed

theorem validate_sql_no_semicolon_witness:
  "validate_sql ''  Select * From tablename; '' = Inr ''Select * From tablename''
   \<and> CHR '';'' \<notin> set ''Select * From tablename''"
  using validate_sql_no_semicolon [OF ex_select_mixed] ex_select_mixed by blast

end
